theory Spec2Isabelle
  imports Complex_Main
begin

section \<open>Strings and characters\<close>

text \<open>
  Strings are lists of characters. The model covers ASCII text: the character classes
  of Python's \<^verbatim>\<open>re\<close> module (digits, whitespace, word characters) and
  \<^verbatim>\<open>str.lower\<close> are modelled on their ASCII range.
\<close>

definition ascii_upper :: string where
  "ascii_upper = ''ABCDEFGHIJKLMNOPQRSTUVWXYZ''"

definition ascii_lower :: string where
  "ascii_lower = ''abcdefghijklmnopqrstuvwxyz''"

definition digits :: string where
  "digits = ''0123456789''"

definition whitespace :: string where
  "whitespace = [CHR '' '', CHR 0x09, CHR 0x0A, CHR 0x0B, CHR 0x0C, CHR 0x0D,
                 CHR 0x1C, CHR 0x1D, CHR 0x1E, CHR 0x1F]"

definition lower_char :: "char \<Rightarrow> char" where
  "lower_char c = (case map_of (zip ascii_upper ascii_lower) c of Some d \<Rightarrow> d | None \<Rightarrow> c)"

definition str_lower :: "string \<Rightarrow> string" where
  "str_lower s = map lower_char s"

definition is_digit :: "char \<Rightarrow> bool" where
  "is_digit c = (c \<in> set digits)"

definition is_word :: "char \<Rightarrow> bool" where
  "is_word c = (c \<in> set (ascii_upper @ ascii_lower @ digits @ ''_''))"

definition bslash :: char where
  "bslash = CHR 0x5C"

definition quote :: char where
  "quote = CHR 0x27"

section \<open>Regular expressions as \<^verbatim>\<open>re.search\<close> runs them\<close>

text \<open>
  The constructs the source's patterns use: literal text, a character set, one or more
  characters of a set (greedy), sequence, ordered alternative, greedy option, and the
  zero-width assertions \<^verbatim>\<open>^\<close>, \<^verbatim>\<open>$\<close> and
  \<^verbatim>\<open>\b\<close>. A position is the character before it (\<open>None\<close> at
  the start of the string) and the text that remains. The matcher returns the positions
  a match can end at, in the order a backtracking matcher tries them.
\<close>

datatype re =
    RStr string
  | RCls string
  | RPlus string
  | RSeq re re
  | RAlt re re
  | ROpt re
  | RBol
  | REol
  | RWordB

type_synonym pos = "char option \<times> string"

definition eqc :: "bool \<Rightarrow> char \<Rightarrow> char \<Rightarrow> bool" where
  "eqc ic x c = (if ic then lower_char x = lower_char c else x = c)"

fun match_str :: "bool \<Rightarrow> string \<Rightarrow> pos \<Rightarrow> pos list" where
  "match_str ic [] p = [p]"
| "match_str ic (c # cs) (prev, []) = []"
| "match_str ic (c # cs) (prev, x # xs) =
     (if eqc ic x c then match_str ic cs (Some x, xs) else [])"

fun match_plus :: "bool \<Rightarrow> string \<Rightarrow> pos \<Rightarrow> pos list" where
  "match_plus ic cs (prev, []) = []"
| "match_plus ic cs (prev, x # xs) =
     (if list_ex (eqc ic x) cs then match_plus ic cs (Some x, xs) @ [(Some x, xs)] else [])"

definition word_before :: "char option \<Rightarrow> bool" where
  "word_before prev = (case prev of None \<Rightarrow> False | Some c \<Rightarrow> is_word c)"

definition word_after :: "string \<Rightarrow> bool" where
  "word_after rest = (case rest of [] \<Rightarrow> False | c # _ \<Rightarrow> is_word c)"

fun rmatch :: "bool \<Rightarrow> re \<Rightarrow> pos \<Rightarrow> pos list" where
  "rmatch ic (RStr s) p = match_str ic s p"
| "rmatch ic (RCls cs) (prev, rest) =
     (case rest of [] \<Rightarrow> []
      | x # xs \<Rightarrow> if list_ex (eqc ic x) cs then [(Some x, xs)] else [])"
| "rmatch ic (RPlus cs) p = match_plus ic cs p"
| "rmatch ic (RSeq r s) p = concat (map (rmatch ic s) (rmatch ic r p))"
| "rmatch ic (RAlt r s) p = rmatch ic r p @ rmatch ic s p"
| "rmatch ic (ROpt r) p = rmatch ic r p @ [p]"
| "rmatch ic RBol (prev, rest) = (if prev = None then [(prev, rest)] else [])"
| "rmatch ic REol (prev, rest) =
     (if rest = [] \<or> rest = [CHR 0x0A] then [(prev, rest)] else [])"
| "rmatch ic RWordB (prev, rest) =
     (if word_before prev \<noteq> word_after rest then [(prev, rest)] else [])"

fun search_from :: "bool \<Rightarrow> re \<Rightarrow> char option \<Rightarrow> string \<Rightarrow> bool" where
  "search_from ic r prev [] = (rmatch ic r (prev, []) \<noteq> [])"
| "search_from ic r prev (x # xs) =
     (rmatch ic r (prev, x # xs) \<noteq> [] \<or> search_from ic r (Some x) xs)"

definition re_search :: "bool \<Rightarrow> re \<Rightarrow> string \<Rightarrow> bool" where
  "re_search ic r s = search_from ic r None s"

fun seqs :: "re list \<Rightarrow> re" where
  "seqs [] = RStr []"
| "seqs [r] = r"
| "seqs (r # rs) = RSeq r (seqs rs)"

fun alts :: "re list \<Rightarrow> re" where
  "alts [] = RCls []"
| "alts [r] = r"
| "alts (r # rs) = RAlt r (alts rs)"

section \<open>The pattern table\<close>

text \<open>The set \<^verbatim>\<open>[_\s-]\<close> of separators between two words of a name.\<close>

definition sep :: string where
  "sep = ''_'' @ whitespace @ ''-''"

text \<open>
  \<^verbatim>\<open>PATTERNS\<close>: label, the pattern's text (it is quoted in the reason) and the
  pattern, compiled with \<^verbatim>\<open>re.I\<close>, in the source's order.
\<close>

definition PATTERNS :: "(string \<times> string \<times> re) list" where
  "PATTERNS = [
    (''email'', ''email|e-?mail'',
       alts [RStr ''email'', seqs [RStr ''e'', ROpt (RStr ''-''), RStr ''mail'']]),
    (''fullName'', ''^name$|full[_'' @ [bslash] @ ''s-]?name'',
       alts [seqs [RBol, RStr ''name'', REol],
             seqs [RStr ''full'', ROpt (RCls sep), RStr ''name'']]),
    (''firstName'', ''^first[_'' @ [bslash] @ ''s-]?name|^fname$'',
       alts [seqs [RBol, RStr ''first'', ROpt (RCls sep), RStr ''name''],
             seqs [RBol, RStr ''fname'', REol]]),
    (''lastName'', ''^last[_'' @ [bslash] @ ''s-]?name|^lname$'',
       alts [seqs [RBol, RStr ''last'', ROpt (RCls sep), RStr ''name''],
             seqs [RBol, RStr ''lname'', REol]]),
    (''company'', ''company|account|org(anization)?'',
       alts [RStr ''company'', RStr ''account'',
             seqs [RStr ''org'', ROpt (RStr ''anization'')]]),
    (''domain'', ''domain|website|url'',
       alts [RStr ''domain'', RStr ''website'', RStr ''url'']),
    (''mrr'', [bslash] @ ''bmrr'' @ [bslash] @ ''b|monthly[-_'' @ [bslash] @ ''s]?recurring'',
       alts [seqs [RWordB, RStr ''mrr'', RWordB],
             seqs [RStr ''monthly'', ROpt (RCls sep), RStr ''recurring'']]),
    (''arr'', [bslash] @ ''barr'' @ [bslash] @ ''b|annual[-_'' @ [bslash] @ ''s]?recurring'',
       alts [seqs [RWordB, RStr ''arr'', RWordB],
             seqs [RStr ''annual'', ROpt (RCls sep), RStr ''recurring'']]),
    (''plan'', ''plan|tier|package'',
       alts [RStr ''plan'', RStr ''tier'', RStr ''package'']),
    (''nps'', [bslash] @ ''bnps'' @ [bslash] @ ''b|net promoter'',
       alts [seqs [RWordB, RStr ''nps'', RWordB], RStr ''net promoter'']),
    (''churnFlag'', ''churn|cancel'',
       alts [RStr ''churn'', RStr ''cancel'']),
    (''createdAt'', ''created|signup|joined|start'',
       alts [RStr ''created'', RStr ''signup'', RStr ''joined'', RStr ''start'']),
    (''lastSeen'',
       ''last[_'' @ [bslash] @ ''s-]?seen|last[_'' @ [bslash] @ ''s-]?login|activity'',
       alts [seqs [RStr ''last'', ROpt (RCls sep), RStr ''seen''],
             seqs [RStr ''last'', ROpt (RCls sep), RStr ''login''],
             RStr ''activity'']),
    (''phone'', ''phone|mobile|cell'',
       alts [RStr ''phone'', RStr ''mobile'', RStr ''cell'']),
    (''country'', ''country'', RStr ''country''),
    (''state'', ''state|province|region'',
       alts [RStr ''state'', RStr ''province'', RStr ''region'']),
    (''city'', ''city|town'', alts [RStr ''city'', RStr ''town'']),
    (''zip'', ''zip|postal'', alts [RStr ''zip'', RStr ''postal'']),
    (''uuid'', ''uuid|id$|guid'',
       alts [RStr ''uuid'', seqs [RStr ''id'', REol], RStr ''guid'']),
    (''notes'', ''notes?|comments?'',
       alts [seqs [RStr ''note'', ROpt (RStr ''s'')],
             seqs [RStr ''comment'', ROpt (RStr ''s'')]])
  ]"

definition STANDARD_ORDER :: "string list" where
  "STANDARD_ORDER = [
    ''uuid'', ''email'', ''fullName'', ''firstName'', ''lastName'', ''company'', ''domain'',
    ''plan'', ''mrr'', ''arr'', ''nps'', ''churnFlag'',
    ''createdAt'', ''lastSeen'', ''phone'', ''country'', ''state'', ''city'', ''zip'',
    ''notes'', ''other'']"

section \<open>Columns and cells\<close>

text \<open>
  A raw cell is a string or missing (\<open>None\<close>, pandas' NaN), as the table source
  supplies it. \<^verbatim>\<open>astype(str)\<close> and \<^verbatim>\<open>str(x)\<close> write a missing
  cell as \<^verbatim>\<open>nan\<close>.
\<close>

type_synonym raw = "string option"

type_synonym series = "raw list"

definition py_str :: "raw \<Rightarrow> string" where
  "py_str x = (case x of None \<Rightarrow> ''nan'' | Some s \<Rightarrow> s)"

definition dropna :: "series \<Rightarrow> series" where
  "dropna s = filter (\<lambda>x. x \<noteq> None) s"

section \<open>The heuristic classifier\<close>

text \<open>The loop over \<^verbatim>\<open>PATTERNS\<close>: the first pattern found in the name wins.\<close>

fun first_pattern :: "(string \<times> string \<times> re) list \<Rightarrow> string \<Rightarrow> (string \<times> string) option" where
  "first_pattern [] name = None"
| "first_pattern ((label, src, pat) # ps) name =
     (if re_search True pat name then Some (label, ''matched pattern '' @ src)
      else first_pattern ps name)"

text \<open>The value hints \<^verbatim>\<open>\$\s?\d|\d+\.\d{2}\<close> and \<^verbatim>\<open>\d{4}-\d{2}-\d{2}\<close>.\<close>

definition currency_hint :: re where
  "currency_hint =
     alts [seqs [RStr ''$'', ROpt (RCls whitespace), RCls digits],
           seqs [RPlus digits, RStr ''.'', RCls digits, RCls digits]]"

definition date_hint :: re where
  "date_hint =
     seqs [RCls digits, RCls digits, RCls digits, RCls digits, RStr ''-'',
           RCls digits, RCls digits, RStr ''-'', RCls digits, RCls digits]"

definition guess_label :: "string \<Rightarrow> series \<Rightarrow> string option \<times> string option" where
  "guess_label name series =
     (case first_pattern PATTERNS name of
        Some (label, reason) \<Rightarrow> (Some label, Some reason)
      | None \<Rightarrow>
          (let sample = take 20 (map py_str (dropna series)) in
           if list_ex (\<lambda>v. CHR ''@'' \<in> set v) sample
             then (Some ''email'', Some (''value hint '' @ [quote] @ ''@'' @ [quote]))
           else if list_ex (re_search False currency_hint) sample
             then (Some ''mrr'', Some ''value hint currency'')
           else if list_ex (re_search False date_hint) sample
             then (Some ''createdAt'', Some ''value hint date'')
           else (None, None)))"

section \<open>The fallback labeler\<close>

text \<open>
  Python's truth test of an optional string (\<^verbatim>\<open>if not label\<close>,
  \<^verbatim>\<open>if api_key\<close>) and \<^verbatim>\<open>x or default\<close>.
\<close>

definition truthy :: "string option \<Rightarrow> bool" where
  "truthy x = (case x of None \<Rightarrow> False | Some s \<Rightarrow> s \<noteq> [])"

definition py_or :: "string option \<Rightarrow> string \<Rightarrow> string" where
  "py_or x d = (case x of None \<Rightarrow> d | Some s \<Rightarrow> if s = [] then d else s)"

text \<open>
  The external service is a parameter: given the column name and the five sample values
  of the prompt it answers \<open>None\<close> when anything inside the \<^verbatim>\<open>try\<close>
  block raises (the request, the JSON decoding), and otherwise the \<^verbatim>\<open>label\<close>
  and \<^verbatim>\<open>reason\<close> entries of the decoded answer, each of which may be absent.
\<close>

type_synonym service = "string \<Rightarrow> string list \<Rightarrow> (string option \<times> string option) option"

definition llm_label ::
  "service \<Rightarrow> string \<Rightarrow> string list \<Rightarrow> string option \<Rightarrow> string option \<times> string option" where
  "llm_label ext column_name sample_values api_key =
     (if \<not> truthy api_key then (None, None)
      else (case ext column_name (take 5 sample_values) of
              None \<Rightarrow> (None, None)
            | Some (label, reason) \<Rightarrow> (label, reason)))"

section \<open>Labelling the columns\<close>

text \<open>
  Lines 105 to 109 of \<^verbatim>\<open>main\<close>: the label and the reason of one column before
  the label is made unique. \<^verbatim>\<open>astype(str)\<close> runs before
  \<^verbatim>\<open>dropna\<close> there, so no cell is dropped from the sample.
\<close>

definition candidate ::
  "service \<Rightarrow> string option \<Rightarrow> string \<Rightarrow> series \<Rightarrow> string \<times> string option" where
  "candidate ext api_key col s =
     (case guess_label col s of (label, reason) \<Rightarrow>
       (case (if \<not> truthy label \<and> truthy api_key
              then (case llm_label ext col (map py_str s) api_key of
                      (ll, rr) \<Rightarrow> (Some (py_or ll ''other''), Some (py_or rr ''LLM fallback'')))
              else (label, reason)) of
          (label, reason) \<Rightarrow>
            (case label of
               None \<Rightarrow> (''other'', Some ''no match'')
             | Some l \<Rightarrow> if l = [] then (''other'', Some ''no match'') else (l, reason))))"

text \<open>Decimal digits of a number, as an f-string writes it, and \<^verbatim>\<open>int\<close> of digits.\<close>

fun str_nat :: "nat \<Rightarrow> string" where
  "str_nat n = (if n < 10 then [digits ! n] else str_nat (n div 10) @ [digits ! (n mod 10)])"

declare str_nat.simps [simp del]

definition digit_val :: "char \<Rightarrow> nat" where
  "digit_val c = length (takeWhile (\<lambda>d. d \<noteq> c) digits)"

definition nat_of_digits :: "string \<Rightarrow> nat" where
  "nat_of_digits s = foldl (\<lambda>a c. 10 * a + digit_val c) 0 s"

definition suffixed :: "string \<Rightarrow> nat \<Rightarrow> string" where
  "suffixed base i = base @ ''_'' @ str_nat i"

text \<open>
  The \<^verbatim>\<open>while\<close> loop of lines 111 to 113: \<open>used\<close> is
  \<^verbatim>\<open>mapping.values()\<close>, \<open>i\<close> the next suffix to try.
\<close>

function uniq_loop :: "string \<Rightarrow> string list \<Rightarrow> string \<Rightarrow> nat \<Rightarrow> string" where
  "uniq_loop base used label i =
     (if label \<in> set used then uniq_loop base used (suffixed base i) (i + 1) else label)"
  by pat_completeness auto

text \<open>
  A dict in insertion order: assigning to a key that is present replaces its value in
  place, assigning to a new key appends.
\<close>

fun dict_set :: "'k \<Rightarrow> 'v \<Rightarrow> ('k \<times> 'v) list \<Rightarrow> ('k \<times> 'v) list" where
  "dict_set k v [] = [(k, v)]"
| "dict_set k v ((k', v') # kvs) =
     (if k' = k then (k, v) # kvs else (k', v') # dict_set k v kvs)"

type_synonym mapping = "(string \<times> string) list"

type_synonym report = "(string \<times> string \<times> string option) list"

text \<open>Lines 111 to 115: make the label unique, record it, report it.\<close>

definition assign ::
  "string \<Rightarrow> string \<Rightarrow> string option \<Rightarrow> mapping \<times> report \<Rightarrow> mapping \<times> report" where
  "assign col label0 reason st =
     (case st of (mapping, report) \<Rightarrow>
        (let label = uniq_loop label0 (map snd mapping) label0 2
         in (dict_set col label mapping, report @ [(col, label, reason)])))"

text \<open>
  A table is its columns in order, each with its name and cells. The loop of lines 104
  to 115 visits them in that order.
\<close>

type_synonym dataframe = "(string \<times> series) list"

fun label_columns ::
  "service \<Rightarrow> string option \<Rightarrow> dataframe \<Rightarrow> mapping \<times> report \<Rightarrow> mapping \<times> report" where
  "label_columns ext api_key [] st = st"
| "label_columns ext api_key ((col, s) # cols) st =
     (case candidate ext api_key col s of
        (label0, reason) \<Rightarrow> label_columns ext api_key cols (assign col label0 reason st))"

text \<open>The same loop over columns whose candidate labels and reasons are given.\<close>

fun assign_all ::
  "(string \<times> string \<times> string option) list \<Rightarrow> mapping \<times> report \<Rightarrow> mapping \<times> report" where
  "assign_all [] st = st"
| "assign_all ((col, label0, reason) # rest) st = assign_all rest (assign col label0 reason st)"

section \<open>Normalising the cells\<close>

datatype error = ValueError | KeyError

record datetime =
  year :: nat
  month :: nat
  day :: nat
  hour :: nat
  minute :: nat
  second :: nat

text \<open>
  A cell of the output: a string or a missing value passed through, a currency amount, a
  flag, a date and time, or pandas' \<^verbatim>\<open>NaT\<close>. An amount is the exact value
  of its decimal digits; the rounding of \<^verbatim>\<open>float\<close> to binary64 is not
  modelled.
\<close>

datatype val = Text string | NaN | Float rat | Bool bool | Datetime datetime | NaT

definition keep :: "raw \<Rightarrow> val" where
  "keep x = (case x of None \<Rightarrow> NaN | Some s \<Rightarrow> Text s)"

subsection \<open>Currency\<close>

text \<open>\<^verbatim>\<open>.str.replace(r"[^\d.]", "", regex=True).replace("", "0")\<close> on one cell.\<close>

definition strip_amount :: "string \<Rightarrow> string" where
  "strip_amount s =
     (let t = filter (\<lambda>c. is_digit c \<or> c = CHR ''.'') s in if t = [] then ''0'' else t)"

text \<open>
  \<^verbatim>\<open>float\<close> of a string of digits and points, the only strings that reach it
  here: digits with at most one point and at least one digit are a number, anything else
  raises \<^verbatim>\<open>ValueError\<close>.
\<close>

definition py_float :: "string \<Rightarrow> error + rat" where
  "py_float s =
     (let ip = takeWhile is_digit s; rest = dropWhile is_digit s in
      case rest of
        [] \<Rightarrow> if ip = [] then Inl ValueError else Inr (of_nat (nat_of_digits ip))
      | c # fp \<Rightarrow>
          if c = CHR ''.'' \<and> list_all is_digit fp \<and> (ip \<noteq> [] \<or> fp \<noteq> [])
          then Inr (of_nat (nat_of_digits (ip @ fp)) / 10 ^ length fp)
          else Inl ValueError)"

text \<open>\<^verbatim>\<open>astype(float)\<close>: the first cell that is no number raises for the column.\<close>

fun astype_float :: "string list \<Rightarrow> error + val list" where
  "astype_float [] = Inr []"
| "astype_float (x # xs) =
     (case py_float x of
        Inl e \<Rightarrow> Inl e
      | Inr v \<Rightarrow> (case astype_float xs of Inl e \<Rightarrow> Inl e | Inr vs \<Rightarrow> Inr (Float v # vs)))"

subsection \<open>Flags\<close>

definition truth_table :: "(string \<times> bool) list" where
  "truth_table = [(''true'', True), (''yes'', True), (''1'', True), (''cancel'', True),
                  (''false'', False), (''no'', False), (''0'', False), (''active'', False)]"

text \<open>\<^verbatim>\<open>.map(table).fillna(False)\<close> on one lower-cased cell.\<close>

definition flag :: "string \<Rightarrow> val" where
  "flag s = (case map_of truth_table s of None \<Rightarrow> Bool False | Some b \<Rightarrow> Bool b)"

subsection \<open>Dates\<close>

text \<open>
  \<^verbatim>\<open>datetime.strptime\<close> as CPython's \<^verbatim>\<open>_strptime\<close> runs it. The format
  becomes a regular expression: a directive is a group of ordered alternatives, white
  space stands for one or more white space characters, any other character for itself.
  The expression is matched at the start of the text; the text must end where the first
  match ends; the numbers must then make a date and a time of day.
\<close>

datatype directive = DY | Dm | Dd | DH | DM | DS

datatype fmt_item = Dir directive | Lit char | Spaces

definition directive_of :: "char \<Rightarrow> directive option" where
  "directive_of c =
     map_of [(CHR ''Y'', DY), (CHR ''m'', Dm), (CHR ''d'', Dd),
             (CHR ''H'', DH), (CHR ''M'', DM), (CHR ''S'', DS)] c"

fun compile_fmt :: "string \<Rightarrow> fmt_item list option" where
  "compile_fmt [] = Some []"
| "compile_fmt [c] = (if c = CHR ''%'' then None else Some [if c \<in> set whitespace then Spaces else Lit c])"
| "compile_fmt (c # d # cs) =
     (if c = CHR ''%''
      then (case directive_of d of
              None \<Rightarrow> None
            | Some x \<Rightarrow> map_option ((#) (Dir x)) (compile_fmt cs))
      else map_option ((#) (if c \<in> set whitespace then Spaces else Lit c)) (compile_fmt (d # cs)))"

text \<open>
  The groups: \<^verbatim>\<open>\d\d\d\d\<close> for the year, \<^verbatim>\<open>1[0-2]|0[1-9]|[1-9]\<close> for
  the month, \<^verbatim>\<open>3[0-1]|[1-2]\d|0[1-9]|[1-9]| [1-9]\<close> for the day,
  \<^verbatim>\<open>2[0-3]|[0-1]\d|\d\<close> for the hour, \<^verbatim>\<open>[0-5]\d|\d\<close> for the minute
  and \<^verbatim>\<open>6[0-1]|[0-5]\d|\d\<close> for the second.
\<close>

fun directive_re :: "directive \<Rightarrow> re" where
  "directive_re DY = seqs [RCls digits, RCls digits, RCls digits, RCls digits]"
| "directive_re Dm =
     alts [seqs [RStr ''1'', RCls ''012''], seqs [RStr ''0'', RCls ''123456789''],
           RCls ''123456789'']"
| "directive_re Dd =
     alts [seqs [RStr ''3'', RCls ''01''], seqs [RCls ''12'', RCls digits],
           seqs [RStr ''0'', RCls ''123456789''], RCls ''123456789'',
           seqs [RStr '' '', RCls ''123456789'']]"
| "directive_re DH =
     alts [seqs [RStr ''2'', RCls ''0123''], seqs [RCls ''01'', RCls digits], RCls digits]"
| "directive_re DM = alts [seqs [RCls ''012345'', RCls digits], RCls digits]"
| "directive_re DS =
     alts [seqs [RStr ''6'', RCls ''01''], seqs [RCls ''012345'', RCls digits], RCls digits]"

text \<open>\<^verbatim>\<open>int\<close> of a group's text: white space around the digits is ignored.\<close>

definition group_int :: "string \<Rightarrow> nat" where
  "group_int s = nat_of_digits (filter is_digit s)"

text \<open>The ways a directive matches at a position: its number and where it ends.\<close>

definition match_directive :: "directive \<Rightarrow> pos \<Rightarrow> (nat \<times> pos) list" where
  "match_directive d p =
     map (\<lambda>q. (group_int (take (length (snd p) - length (snd q)) (snd p)), q))
       (rmatch True (directive_re d) p)"

fun match_items :: "fmt_item list \<Rightarrow> pos \<Rightarrow> ((directive \<times> nat) list \<times> pos) list" where
  "match_items [] p = [([], p)]"
| "match_items (Dir d # its) p =
     concat (map (\<lambda>(v, q). map (\<lambda>(vs, e). ((d, v) # vs, e)) (match_items its q))
               (match_directive d p))"
| "match_items (Lit c # its) p = concat (map (match_items its) (rmatch True (RStr [c]) p))"
| "match_items (Spaces # its) p =
     concat (map (match_items its) (rmatch True (RPlus whitespace) p))"

definition found_int :: "directive \<Rightarrow> nat \<Rightarrow> (directive \<times> nat) list \<Rightarrow> nat" where
  "found_int d dflt found = (case map_of found d of None \<Rightarrow> dflt | Some v \<Rightarrow> v)"

definition is_leap :: "nat \<Rightarrow> bool" where
  "is_leap y = (y mod 4 = 0 \<and> (y mod 100 \<noteq> 0 \<or> y mod 400 = 0))"

definition days_in_month :: "nat \<Rightarrow> nat \<Rightarrow> nat" where
  "days_in_month y m =
     (if m = 2 then (if is_leap y then 29 else 28)
      else if m \<in> set [4, 6, 9, 11] then 30 else 31)"

definition valid_date :: "nat \<Rightarrow> nat \<Rightarrow> nat \<Rightarrow> bool" where
  "valid_date y m d =
     (1 \<le> y \<and> y \<le> 9999 \<and> 1 \<le> m \<and> m \<le> 12 \<and> 1 \<le> d \<and> d \<le> days_in_month y m)"

definition strptime :: "string \<Rightarrow> string \<Rightarrow> error + datetime" where
  "strptime data_string format =
     (case compile_fmt format of
        None \<Rightarrow> Inl ValueError
      | Some items \<Rightarrow>
          (case match_items items (None, data_string) of
             [] \<Rightarrow> Inl ValueError
           | (found, (_, rest)) # _ \<Rightarrow>
               if rest \<noteq> [] then Inl ValueError
               else
                 (let y = found_int DY 1900 found; m = found_int Dm 1 found; d = found_int Dd 1 found;
                      H = found_int DH 0 found; M = found_int DM 0 found; S = found_int DS 0 found
                  in if valid_date y m d \<and> H \<le> 23 \<and> M \<le> 59 \<and> S \<le> 59
                     then Inr \<lparr>year = y, month = m, day = d, hour = H, minute = M, second = S\<rparr>
                     else Inl ValueError)))"

definition formats :: "string list" where
  "formats = [''%Y-%m-%d'', ''%m/%d/%Y'', ''%Y-%m-%d %H:%M:%S'']"

text \<open>
  The loop of \<^verbatim>\<open>_p\<close>: the first format that parses gives the value, an exception
  moves on to the next format, and \<^verbatim>\<open>NaT\<close> is left when every format failed.
\<close>

fun try_formats :: "string list \<Rightarrow> string \<Rightarrow> val" where
  "try_formats [] x = NaT"
| "try_formats (fmt # fmts) x =
     (case strptime x fmt of Inr d \<Rightarrow> Datetime d | Inl e \<Rightarrow> try_formats fmts x)"

definition p_parse :: "raw \<Rightarrow> val" where
  "p_parse x = try_formats formats (py_str x)"

subsection \<open>The dispatch on the label\<close>

text \<open>The source's \<^verbatim>\<open>normalize\<close>.\<close>

definition normalize_series :: "string \<Rightarrow> series \<Rightarrow> error + val list" where
  "normalize_series label s =
     (if label \<in> set [''mrr'', ''arr'']
        then astype_float (map (\<lambda>x. strip_amount (py_str x)) s)
      else if label = ''churnFlag''
        then Inr (map (\<lambda>x. flag (str_lower (py_str x))) s)
      else if label \<in> set [''createdAt'', ''lastSeen'']
        then Inr (map p_parse s)
      else Inr (map keep s))"

section \<open>The pipeline\<close>

type_synonym frame = "(string \<times> val list) list"

text \<open>
  Lines 117 to 119: every entry of the mapping, in insertion order, adds its normalised
  column to \<^verbatim>\<open>clean\<close>; an exception of \<^verbatim>\<open>normalize\<close> ends the run.
\<close>

fun build_clean :: "dataframe \<Rightarrow> mapping \<Rightarrow> frame \<Rightarrow> error + frame" where
  "build_clean df [] clean = Inr clean"
| "build_clean df ((src, dst) # items) clean =
     (case map_of df src of
        None \<Rightarrow> Inl KeyError
      | Some s \<Rightarrow>
          (case normalize_series dst s of
             Inl e \<Rightarrow> Inl e
           | Inr vs \<Rightarrow> build_clean df items (dict_set dst vs clean)))"

text \<open>Lines 121 and 122: the registry's labels first, the other labels after them.\<close>

definition column_order :: "string list \<Rightarrow> string list" where
  "column_order columns =
     filter (\<lambda>c. c \<in> set columns) STANDARD_ORDER
     @ filter (\<lambda>c. c \<notin> set STANDARD_ORDER) columns"

text \<open>Line 123, \<^verbatim>\<open>clean[order]\<close>: the columns named, in the order named.\<close>

fun select_columns :: "frame \<Rightarrow> string list \<Rightarrow> error + frame" where
  "select_columns clean [] = Inr []"
| "select_columns clean (c # cs) =
     (case map_of clean c of
        None \<Rightarrow> Inl KeyError
      | Some vs \<Rightarrow>
          (case select_columns clean cs of
             Inl e \<Rightarrow> Inl e
           | Inr rest \<Rightarrow> Inr ((c, vs) # rest)))"

text \<open>
  \<^verbatim>\<open>main\<close> from the table read to the table written: the ordered output columns
  and the report, or the exception that ended the run.
\<close>

definition main :: "service \<Rightarrow> string option \<Rightarrow> dataframe \<Rightarrow> error + (frame \<times> report)" where
  "main ext api_key df =
     (case label_columns ext api_key df ([], []) of
        (mapping, report) \<Rightarrow>
          (case build_clean df mapping [] of
             Inl e \<Rightarrow> Inl e
           | Inr clean \<Rightarrow>
               (case select_columns clean (column_order (map fst clean)) of
                  Inl e \<Rightarrow> Inl e
                | Inr out \<Rightarrow> Inr (out, report))))"

text \<open>The table a run writes, when it completes.\<close>

definition table_of :: "error + (frame \<times> report) \<Rightarrow> frame option" where
  "table_of r = (case r of Inl e \<Rightarrow> None | Inr (out, report) \<Rightarrow> Some out)"

text \<open>A service whose every call fails.\<close>

definition failing_service :: service where
  "failing_service column_name sample_values = None"

section \<open>The end-to-end scenario of the specification\<close>

text \<open>The table of the scenario, and the table the specification says is written.\<close>

definition jane_table :: dataframe where
  "jane_table = [(''Full Name'', [Some ''Jane Doe'']), (''E-mail'', [Some ''jane@x.com'']),
                 (''Signup Date'', [Some ''2023-01-05'']), (''MRR'', [Some ''$120.00''])]"
definition jane_spec_output :: frame where
  "jane_spec_output =
     [(''fullName'', [Text ''Jane Doe'']), (''email'', [Text ''jane@x.com'']),
      (''createdAt'',
         [Datetime \<lparr>year = 2023, month = 1, day = 5, hour = 0, minute = 0, second = 0\<rparr>]),
      (''mrr'', [Float 120])]"

text \<open>A table whose columns are labelled \<^verbatim>\<open>mrr\<close> and \<^verbatim>\<open>plan\<close>.\<close>

definition mrr_plan_table :: dataframe where
  "mrr_plan_table = [(''MRR'', [Some ''$120.00'']), (''Plan'', [Some ''pro''])]"

section \<open>The field order as the specification lists it\<close>

text \<open>
  The specification's registry order, for comparison with \<^verbatim>\<open>STANDARD_ORDER\<close>,
  and the column order it would give.
\<close>

definition SPEC_ORDER :: "string list" where
  "SPEC_ORDER = [
    ''uuid'', ''email'', ''fullName'', ''firstName'', ''lastName'', ''company'', ''domain'',
    ''mrr'', ''arr'', ''plan'', ''nps'', ''churnFlag'',
    ''createdAt'', ''lastSeen'', ''phone'', ''country'', ''state'', ''city'', ''zip'',
    ''notes'', ''other'']"

definition spec_column_order :: "string list \<Rightarrow> string list" where
  "spec_column_order columns =
     filter (\<lambda>c. c \<in> set columns) SPEC_ORDER
     @ filter (\<lambda>c. c \<notin> set SPEC_ORDER) columns"

section \<open>Decimal digits and the termination of the suffix loop\<close>

lemma digit_val_digits: "d < 10 \<Longrightarrow> digit_val (digits ! d) = d"
proof -
  assume "d < 10"
  then consider "d = 0" | "d = 1" | "d = 2" | "d = 3" | "d = 4"
    | "d = 5" | "d = 6" | "d = 7" | "d = 8" | "d = 9"
    by atomize_elim arith
  then show ?thesis
    by cases (simp_all add: digit_val_def digits_def)
qed

lemma nat_of_digits_snoc: "nat_of_digits (s @ [c]) = 10 * nat_of_digits s + digit_val c"
  by (simp add: nat_of_digits_def)

lemma nat_of_digits_str_nat: "nat_of_digits (str_nat n) = n"
proof (induction n rule: str_nat.induct)
  case (1 n)
  show ?case
  proof (cases "n < 10")
    case True
    then show ?thesis
      using nat_of_digits_snoc [of "[]" "digits ! n"]
      by (simp add: str_nat.simps [of n] digit_val_digits nat_of_digits_def)
  next
    case False
    then have "nat_of_digits (str_nat (n div 10)) = n div 10"
      using 1 by simp
    then show ?thesis
      using False
      by (simp add: str_nat.simps [of n] nat_of_digits_snoc digit_val_digits)
  qed
qed

lemma inj_str_nat: "inj str_nat"
  by (rule inj_on_inverseI [where g = nat_of_digits]) (rule nat_of_digits_str_nat)

lemma inj_suffixed: "inj (suffixed base)"
  using inj_str_nat by (auto simp: inj_def suffixed_def)

lemma finite_taken: "finite {j. suffixed base j \<in> set used}"
proof -
  have "{j. suffixed base j \<in> set used} = suffixed base -` set used"
    by auto
  then show ?thesis
    using finite_vimageI [OF finite_set inj_suffixed] by simp
qed

termination uniq_loop
proof (relation "measure (\<lambda>(base, used, label, i).
         2 * card {j. i \<le> j \<and> suffixed base j \<in> set used}
         + (if label \<in> set used then 1 else 0))", goal_cases)
  case 1
  show ?case by simp
next
  case (2 base used label i)
  let ?A = "{j. i \<le> j \<and> suffixed base j \<in> set used}"
  let ?B = "{j. i + 1 \<le> j \<and> suffixed base j \<in> set used}"
  have fin: "finite ?B"
    by (rule finite_subset [OF _ finite_taken [of base used]]) auto
  show ?case
  proof (cases "suffixed base i \<in> set used")
    case True
    then have "?A = insert i ?B"
      by (auto simp: le_less Suc_le_eq)
    moreover have "i \<notin> ?B"
      by simp
    ultimately have "card ?A = Suc (card ?B)"
      using fin by simp
    then show ?thesis
      using 2 True by simp
  next
    case False
    then have "?A = ?B"
      by (auto simp: le_less Suc_le_eq)
    then show ?thesis
      using 2 False by simp
  qed
qed

declare uniq_loop.simps [simp del]

section \<open>Character tests on the bits of a character\<close>

text \<open>
  Lower-casing and the word test, read off the eight bits of a character: the same
  functions as the tables above, in a form that evaluates quickly.
\<close>

lemma lower_char_bits [code]:
  "lower_char (Char b0 b1 b2 b3 b4 b5 b6 b7) =
     (if \<not> b7 \<and> b6 \<and> \<not> b5 \<and> (b0 \<or> b1 \<or> b2 \<or> b3 \<or> b4)
         \<and> \<not> (b4 \<and> b3 \<and> (b2 \<or> (b1 \<and> b0)))
      then Char b0 b1 b2 b3 b4 True b6 b7 else Char b0 b1 b2 b3 b4 b5 b6 b7)"
  by (cases b0; cases b1; cases b2; cases b3; cases b4; cases b5; cases b6; cases b7;
      simp add: lower_char_def ascii_upper_def ascii_lower_def)

lemma is_word_bits [code]:
  "is_word (Char b0 b1 b2 b3 b4 b5 b6 b7) =
     (\<not> b7 \<and> ((\<not> b6 \<and> b5 \<and> b4 \<and> \<not> (b3 \<and> (b2 \<or> b1)))
        \<or> (b6 \<and> (((b0 \<or> b1 \<or> b2 \<or> b3 \<or> b4) \<and> \<not> (b4 \<and> b3 \<and> (b2 \<or> (b1 \<and> b0))))
              \<or> (\<not> b5 \<and> b0 \<and> b1 \<and> b2 \<and> b3 \<and> b4)))))"
  by (cases b0; cases b1; cases b2; cases b3; cases b4; cases b5; cases b6; cases b7;
      simp add: is_word_def ascii_upper_def ascii_lower_def digits_def)

section \<open>Unique labels\<close>

lemma uniq_loop_fresh: "label \<notin> set used \<Longrightarrow> uniq_loop base used label i = label"
  by (simp add: uniq_loop.simps)

lemma uniq_loop_not_used: "uniq_loop base used label i \<notin> set used"
proof (induction base used label i rule: uniq_loop.induct)
  case (1 base used label i)
  then show ?case
    by (cases "label \<in> set used") (simp_all add: uniq_loop.simps [of base used label i])
qed

lemma uniq_loop_least:
  "label \<in> set used \<Longrightarrow>
   uniq_loop base used label i = suffixed base (LEAST k. i \<le> k \<and> suffixed base k \<notin> set used)"
proof (induction base used label i rule: uniq_loop.induct)
  case (1 base used label i)
  have step: "uniq_loop base used label i = uniq_loop base used (suffixed base i) (i + 1)"
    using "1.prems" by (simp add: uniq_loop.simps [of base used label i])
  show ?case
  proof (cases "suffixed base i \<in> set used")
    case True
    have "(\<lambda>k. i \<le> k \<and> suffixed base k \<notin> set used)
          = (\<lambda>k. i + 1 \<le> k \<and> suffixed base k \<notin> set used)"
    proof
      fix k
      show "(i \<le> k \<and> suffixed base k \<notin> set used) = (i + 1 \<le> k \<and> suffixed base k \<notin> set used)"
        using True by (cases "k = i") auto
    qed
    then show ?thesis
      using "1.IH" [OF "1.prems" True] step by simp
  next
    case False
    then have "(LEAST k. i \<le> k \<and> suffixed base k \<notin> set used) = i"
      by (intro Least_equality) auto
    then show ?thesis
      using step False by (simp add: uniq_loop_fresh)
  qed
qed

lemma set_dict_set: "set (dict_set k v m) \<subseteq> insert (k, v) (set m)"
  by (induction m) (auto split: if_splits)

lemma distinct_dict_set:
  "distinct (map snd m) \<Longrightarrow> v \<notin> set (map snd m) \<Longrightarrow> distinct (map snd (dict_set k v m))"
proof (induction m)
  case Nil
  then show ?case by simp
next
  case (Cons p m)
  obtain k' v' where p: "p = (k', v')" by (cases p)
  show ?case
  proof (cases "k' = k")
    case True
    then show ?thesis using Cons.prems p by simp
  next
    case False
    have "v' \<notin> set (map snd (dict_set k v m))"
      using set_dict_set [of k v m] Cons.prems p by force
    then show ?thesis
      using False Cons p by simp
  qed
qed

lemma dict_set_new: "k \<notin> set (map fst m) \<Longrightarrow> dict_set k v m = m @ [(k, v)]"
  by (induction m) auto

lemma distinct_assign:
  "distinct (map snd (fst st)) \<Longrightarrow> distinct (map snd (fst (assign col label0 reason st)))"
proof (cases st)
  case (Pair mapping report)
  assume "distinct (map snd (fst st))"
  then have "distinct (map snd mapping)"
    using Pair by simp
  then have "distinct (map snd (dict_set col (uniq_loop label0 (map snd mapping) label0 2) mapping))"
    by (rule distinct_dict_set) (rule uniq_loop_not_used)
  then show ?thesis
    using Pair by (simp add: assign_def Let_def)
qed

lemma distinct_assign_all:
  "distinct (map snd (fst st)) \<Longrightarrow> distinct (map snd (fst (assign_all xs st)))"
proof (induction xs arbitrary: st)
  case Nil
  then show ?case by simp
next
  case (Cons x xs)
  obtain col label0 reason where x: "x = (col, label0, reason)" by (cases x)
  show ?case
    using Cons.IH [OF distinct_assign [OF Cons.prems]] x by simp
qed

lemma label_columns_assign_all:
  "label_columns ext api_key df st
   = assign_all (map (\<lambda>(col, s). (col, candidate ext api_key col s)) df) st"
proof (induction df arbitrary: st)
  case Nil
  then show ?case by simp
next
  case (Cons c df)
  obtain col s where c: "c = (col, s)" by (cases c)
  obtain l r where cand: "candidate ext api_key col s = (l, r)" by (cases "candidate ext api_key col s")
  show ?case
    using Cons.IH c cand by simp
qed

lemma distinct_label_columns:
  "distinct (map snd (fst (label_columns ext api_key df ([], []))))"
  by (simp add: label_columns_assign_all distinct_assign_all)

lemma guess_Plan: "guess_label ''Plan'' s = (Some ''plan'', Some ''matched pattern plan|tier|package'')"
  by code_simp

lemma guess_plan_type: "guess_label ''plan_type'' s = (Some ''plan'', Some ''matched pattern plan|tier|package'')"
  by code_simp

lemma candidate_matched:
  "guess_label col s = (Some l, Some r) \<Longrightarrow> l \<noteq> [] \<Longrightarrow> candidate ext api_key col s = (l, Some r)"
  by (simp add: candidate_def truthy_def)

lemma candidate_Plan: "candidate ext api_key ''Plan'' s = (''plan'', Some ''matched pattern plan|tier|package'')"
  using candidate_matched [OF guess_Plan] by simp

lemma candidate_plan_type:
  "candidate ext api_key ''plan_type'' s = (''plan'', Some ''matched pattern plan|tier|package'')"
  using candidate_matched [OF guess_plan_type] by simp

lemma str_nat_2: "str_nat 2 = ''2''"
  by (simp add: str_nat.simps digits_def)

lemma plan_labels:
  "map snd (fst (label_columns ext api_key [(''Plan'', s1), (''plan_type'', s2)] ([], [])))
   = [''plan'', ''plan_2'']"
  by (simp add: candidate_Plan candidate_plan_type assign_def uniq_loop.simps suffixed_def str_nat_2)

lemma assign_all_example:
  "map snd (fst (assign_all
      [(''a'', ''plan'', None), (''b'', ''plan'', None), (''c'', ''plan_2'', None)] ([], [])))
   = [''plan'', ''plan_2'', ''plan_2_2'']"
  by (simp add: assign_def uniq_loop.simps suffixed_def str_nat_2)

text \<open>
  Claim C3. Whatever the columns and their candidate labels, processed in input order,
  the labels assigned are pairwise distinct. A candidate that is free is kept; one that is
  taken gets the suffix \<^verbatim>\<open>_k\<close> for the least \<open>k\<close> from 2 on whose
  suffixed label is free, and the label chosen is never one already assigned. Two columns
  named \<^verbatim>\<open>Plan\<close> and \<^verbatim>\<open>plan_type\<close> get the labels
  \<^verbatim>\<open>plan\<close> and \<^verbatim>\<open>plan_2\<close>, in that order.
\<close>

theorem C3_labels_pairwise_distinct:
  "distinct (map snd (fst (assign_all pairs ([], []))))
   \<and> distinct (map snd (fst (label_columns ext api_key df ([], []))))
   \<and> uniq_loop base used base 2
       = (if base \<in> set used
          then suffixed base (LEAST k. 2 \<le> k \<and> suffixed base k \<notin> set used)
          else base)
   \<and> uniq_loop base used base 2 \<notin> set used
   \<and> map snd (fst (label_columns ext api_key [(''Plan'', s1), (''plan_type'', s2)] ([], [])))
       = [''plan'', ''plan_2'']"
proof (intro conjI)
  show "distinct (map snd (fst (assign_all pairs ([], []))))"
    by (rule distinct_assign_all) simp
  show "distinct (map snd (fst (label_columns ext api_key df ([], []))))"
    by (rule distinct_label_columns)
  show "uniq_loop base used base 2
       = (if base \<in> set used
          then suffixed base (LEAST k. 2 \<le> k \<and> suffixed base k \<notin> set used)
          else base)"
    using uniq_loop_least [of base used base 2] uniq_loop_fresh [of base used base 2]
    by (cases "base \<in> set used") simp_all
  show "uniq_loop base used base 2 \<notin> set used"
    by (rule uniq_loop_not_used)
  show "map snd (fst (label_columns ext api_key [(''Plan'', s1), (''plan_type'', s2)] ([], [])))
       = [''plan'', ''plan_2'']"
    by (rule plan_labels)
qed

text \<open>
  Three columns with the candidates \<^verbatim>\<open>plan\<close>, \<^verbatim>\<open>plan\<close>
  and \<^verbatim>\<open>plan_2\<close>: the third finds its own candidate taken by the second.
\<close>

theorem C3_labels_pairwise_distinct_witness:
  "distinct (map snd (fst (assign_all
      [(''a'', ''plan'', None), (''b'', ''plan'', None), (''c'', ''plan_2'', None)] ([], []))))
   \<and> map snd (fst (assign_all
      [(''a'', ''plan'', None), (''b'', ''plan'', None), (''c'', ''plan_2'', None)] ([], [])))
     = [''plan'', ''plan_2'', ''plan_2_2'']"
proof
  show "distinct (map snd (fst (assign_all
      [(''a'', ''plan'', None), (''b'', ''plan'', None), (''c'', ''plan_2'', None)] ([], []))))"
    by (rule C3_labels_pairwise_distinct
        [of "[(''a'', ''plan'', None), (''b'', ''plan'', None), (''c'', ''plan_2'', None)]"
            failing_service None "[]" "''plan''" "[]" "[]" "[]", THEN conjunct1])
  show "map snd (fst (assign_all
      [(''a'', ''plan'', None), (''b'', ''plan'', None), (''c'', ''plan_2'', None)] ([], [])))
     = [''plan'', ''plan_2'', ''plan_2_2'']"
    by (rule assign_all_example)
qed

section \<open>Classification by name\<close>

lemma first_pattern_None_iff:
  "first_pattern ps name = None \<longleftrightarrow> \<not> list_ex (\<lambda>(label, src, pat). re_search True pat name) ps"
  by (induction ps name rule: first_pattern.induct) auto

lemma guess_label_matched:
  "first_pattern PATTERNS name = Some (label, reason) \<Longrightarrow>
   guess_label name series = (Some label, Some reason)"
  by (simp add: guess_label_def)

lemma Plan_matches: "list_ex (\<lambda>(label, src, pat). re_search True pat ''Plan'') PATTERNS"
  by code_simp

lemma guess_foo_email: "guess_label ''foo'' [Some ''a@b.c''] = (Some ''email'', Some (''value hint '' @ [quote] @ ''@'' @ [quote]))"
  by code_simp

lemma guess_foo_none: "guess_label ''foo'' [] = (None, None)"
  by code_simp

text \<open>
  Claim C4. When some pattern of the table is found in the column's name, the label and
  the reason are those of the first such pattern, whatever the column's values: two
  columns of that name with different values are classified alike.
\<close>

theorem C4_name_match_ignores_values:
  assumes "list_ex (\<lambda>(label, src, pat). re_search True pat name) PATTERNS"
  shows "guess_label name v1 = guess_label name v2
         \<and> (\<exists>label reason. first_pattern PATTERNS name = Some (label, reason)
                \<and> guess_label name v1 = (Some label, Some reason))"
proof -
  from assms obtain label reason where "first_pattern PATTERNS name = Some (label, reason)"
    using first_pattern_None_iff [of PATTERNS name] by (cases "first_pattern PATTERNS name") auto
  then show ?thesis
    by (simp add: guess_label_matched)
qed

text \<open>
  The name \<^verbatim>\<open>Plan\<close> with no values and with a value that holds an
  \<^verbatim>\<open>@\<close>; the same values under a name no pattern is found in are classified
  differently.
\<close>

theorem C4_name_match_ignores_values_witness:
  "list_ex (\<lambda>(label, src, pat). re_search True pat ''Plan'') PATTERNS
   \<and> guess_label ''Plan'' [] = guess_label ''Plan'' [Some ''a@b.c'']
   \<and> guess_label ''foo'' [] \<noteq> guess_label ''foo'' [Some ''a@b.c'']"
proof (intro conjI)
  show "list_ex (\<lambda>(label, src, pat). re_search True pat ''Plan'') PATTERNS"
    by (rule Plan_matches)
  show "guess_label ''Plan'' [] = guess_label ''Plan'' [Some ''a@b.c'']"
    by (rule C4_name_match_ignores_values [OF Plan_matches, THEN conjunct1])
  show "guess_label ''foo'' [] \<noteq> guess_label ''foo'' [Some ''a@b.c'']"
    by (simp add: guess_foo_email guess_foo_none)
qed

section \<open>Flags\<close>

lemma flag_table: "flag t = Bool (t \<in> set [''true'', ''yes'', ''1'', ''cancel''])"
  by (simp add: flag_def truth_table_def)

lemma lower_Yes: "str_lower ''Yes'' = ''yes''"
  by code_simp

lemma lower_banana: "str_lower ''banana'' = ''banana''"
  by code_simp

lemma lower_0: "str_lower ''0'' = ''0''"
  by code_simp

lemma lower_nan: "str_lower ''nan'' = ''nan''"
  by code_simp

text \<open>
  Claim C6. Under the label \<^verbatim>\<open>churnFlag\<close> every cell becomes a flag and no
  cell raises: the flag is true exactly when the lower-cased text of the cell is one of
  \<^verbatim>\<open>true\<close>, \<^verbatim>\<open>yes\<close>, \<^verbatim>\<open>1\<close>, \<^verbatim>\<open>cancel\<close>,
  and false for every other text, those of the table's false entries included.
\<close>

theorem C6_churn_flag_truth_table:
  "normalize_series ''churnFlag'' s
   = Inr (map (\<lambda>x. Bool (str_lower (py_str x) \<in> set [''true'', ''yes'', ''1'', ''cancel''])) s)
   \<and> map_of truth_table
       = map_of [(''true'', True), (''yes'', True), (''1'', True), (''cancel'', True),
                 (''false'', False), (''no'', False), (''0'', False), (''active'', False)]"
  by (simp add: normalize_series_def flag_table truth_table_def)

theorem C6_churn_flag_truth_table_witness:
  "normalize_series ''churnFlag'' [Some ''Yes'', Some ''0'', Some ''banana'', None]
   = Inr [Bool True, Bool False, Bool False, Bool False]"
  using C6_churn_flag_truth_table [of "[Some ''Yes'', Some ''0'', Some ''banana'', None]", THEN conjunct1]
  by (simp add: py_str_def lower_Yes lower_0 lower_banana lower_nan)

section \<open>The default label\<close>

lemma llm_failing: "llm_label failing_service col sample api_key = (None, None)"
  by (simp add: llm_label_def failing_service_def)

text \<open>
  Claim C7, as the code has it. A column that the classifier gives no label and for which
  the fallback labeler gives neither label nor reason gets the label
  \<^verbatim>\<open>other\<close>; its reason is \<^verbatim>\<open>no match\<close> when no credential
  is configured and \<^verbatim>\<open>LLM fallback\<close> when one is.
\<close>

theorem C7_default_label_other:
  assumes "guess_label col s = (None, None)"
    and "llm_label ext col (map py_str s) api_key = (None, None)"
  shows "candidate ext api_key col s
         = (''other'', Some (if truthy api_key then ''LLM fallback'' else ''no match''))"
  using assms by (simp add: candidate_def truthy_def py_or_def)

theorem C7_default_label_other_witness:
  "guess_label ''foo'' [] = (None, None)
   \<and> llm_label failing_service ''foo'' (map py_str []) None = (None, None)
   \<and> candidate failing_service None ''foo'' [] = (''other'', Some ''no match'')"
  using C7_default_label_other [OF guess_foo_none llm_failing [of "''foo''" "map py_str []" None]]
  by (simp add: guess_foo_none llm_failing truthy_def)

text \<open>
  With a credential configured and a service whose call fails, the reason reported is
  \<^verbatim>\<open>LLM fallback\<close>, not \<^verbatim>\<open>no match\<close>.
\<close>

theorem C7_reason_counterexample:
  "guess_label ''foo'' [] = (None, None)
   \<and> llm_label failing_service ''foo'' (map py_str []) (Some ''key'') = (None, None)
   \<and> candidate failing_service (Some ''key'') ''foo'' [] = (''other'', Some ''LLM fallback'')
   \<and> candidate failing_service (Some ''key'') ''foo'' [] \<noteq> (''other'', Some ''no match'')"
  by (simp add: guess_foo_none llm_failing candidate_def truthy_def py_or_def)

section \<open>Suffixed labels\<close>

lemma last_str_nat: "str_nat n \<noteq> [] \<and> last (str_nat n) \<in> set digits"
proof (cases "n < 10")
  case True
  then have "digits ! n \<in> set digits"
    by (intro nth_mem) (simp add: digits_def)
  then show ?thesis
    using True by (simp add: str_nat.simps [of n])
next
  case False
  have "digits ! (n mod 10) \<in> set digits"
    by (intro nth_mem) (simp add: digits_def)
  then show ?thesis
    using False by (simp add: str_nat.simps [of n])
qed

lemma last_suffixed: "last (suffixed base i) \<in> set digits"
  using last_str_nat [of i] by (simp add: suffixed_def)

lemma suffixed_untyped:
  "suffixed base i \<notin> set [''mrr'', ''arr'', ''churnFlag'', ''createdAt'', ''lastSeen'']"
proof
  assume "suffixed base i \<in> set [''mrr'', ''arr'', ''churnFlag'', ''createdAt'', ''lastSeen'']"
  then have "last (suffixed base i) \<in> set ''rgtn''"
    by auto
  then show False
    using last_suffixed [of base i] by (auto simp: digits_def)
qed

lemma normalize_untyped:
  "label \<notin> set [''mrr'', ''arr'', ''churnFlag'', ''createdAt'', ''lastSeen''] \<Longrightarrow>
   normalize_series label s = Inr (map keep s)"
  by (simp add: normalize_series_def)

lemma normalize_suffixed: "normalize_series (suffixed base i) s = Inr (map keep s)"
  by (rule normalize_untyped) (rule suffixed_untyped)

section \<open>Runs of the pipeline on small tables\<close>

lemma candidate_of_pattern:
  "first_pattern PATTERNS col = Some (l, r) \<Longrightarrow> l \<noteq> [] \<Longrightarrow>
   candidate ext api_key col s = (l, Some r)"
  by (simp add: candidate_def guess_label_def truthy_def)

lemma pattern_Full_Name:
  "first_pattern PATTERNS ''Full Name''
   = Some (''fullName'', ''matched pattern ^name$|full[_'' @ [bslash] @ ''s-]?name'')"
  by code_simp

lemma pattern_E_mail:
  "first_pattern PATTERNS ''E-mail'' = Some (''email'', ''matched pattern email|e-?mail'')"
  by code_simp

lemma pattern_Signup_Date:
  "first_pattern PATTERNS ''Signup Date''
   = Some (''createdAt'', ''matched pattern created|signup|joined|start'')"
  by code_simp

lemma pattern_MRR:
  "first_pattern PATTERNS ''MRR''
   = Some (''mrr'', ''matched pattern '' @ [bslash] @ ''bmrr'' @ [bslash]
                     @ ''b|monthly[-_'' @ [bslash] @ ''s]?recurring'')"
  by code_simp

lemma pattern_mrr_usd:
  "first_pattern PATTERNS ''mrr usd''
   = Some (''mrr'', ''matched pattern '' @ [bslash] @ ''bmrr'' @ [bslash]
                     @ ''b|monthly[-_'' @ [bslash] @ ''s]?recurring'')"
  by code_simp

lemmas candidate_Full_Name = candidate_of_pattern [OF pattern_Full_Name, simplified]
lemmas candidate_E_mail = candidate_of_pattern [OF pattern_E_mail, simplified]
lemmas candidate_Signup_Date = candidate_of_pattern [OF pattern_Signup_Date, simplified]
lemmas candidate_MRR = candidate_of_pattern [OF pattern_MRR, simplified]
lemmas candidate_mrr_usd = candidate_of_pattern [OF pattern_mrr_usd, simplified]

lemmas amount_simps = strip_amount_def py_float_def is_digit_def digits_def nat_of_digits_def
  digit_val_def py_str_def

lemma normalize_mrr_120: "normalize_series ''mrr'' [Some ''$120.00''] = Inr [Float 120]"
  by (simp add: normalize_series_def amount_simps)

lemma normalize_mrr_partial: "normalize_series ''mrr'' [Some ''$1,2x0'', None] = Inr [Float 120, Float 0]"
  by (simp add: normalize_series_def amount_simps)

lemma normalize_mrr_points: "normalize_series ''mrr'' [Some ''1.2.3''] = Inl ValueError"
  by (simp add: normalize_series_def amount_simps)

lemma normalize_arr_point: "normalize_series ''arr'' [Some ''n/a.''] = Inl ValueError"
  by (simp add: normalize_series_def amount_simps)

lemmas run_simps = main_def table_of_def assign_def uniq_loop.simps suffixed_def str_nat_2
  column_order_def STANDARD_ORDER_def

lemma main_points: "main ext api_key [(''MRR'', [Some ''1.2.3''])] = Inl ValueError"
  by (simp add: run_simps candidate_MRR normalize_mrr_points)

lemma main_two_mrr:
  "table_of (main ext api_key [(''MRR'', [Some ''$120.00'']), (''mrr usd'', [Some ''$120.00''])])
   = Some [(''mrr'', [Float 120]), (''mrr_2'', [Text ''$120.00''])]"
  by (simp add: run_simps candidate_MRR candidate_mrr_usd normalize_mrr_120
      normalize_suffixed [of "''mrr''" 2, unfolded suffixed_def str_nat_2, simplified] keep_def)

section \<open>Dates\<close>

lemmas strptime_simps = strptime_def directive_of_def match_directive_def eqc_def
  lower_char_bits group_int_def nat_of_digits_def digit_val_def digits_def is_digit_def
  found_int_def valid_date_def days_in_month_def is_leap_def whitespace_def

lemma strptime_iso:
  "strptime ''2023-01-05'' ''%Y-%m-%d''
   = Inr \<lparr>year = 2023, month = 1, day = 5, hour = 0, minute = 0, second = 0\<rparr>"
  by (simp add: strptime_simps)

lemma strptime_us:
  "strptime ''01/05/2023'' ''%Y-%m-%d'' = Inl ValueError"
  "strptime ''01/05/2023'' ''%m/%d/%Y''
   = Inr \<lparr>year = 2023, month = 1, day = 5, hour = 0, minute = 0, second = 0\<rparr>"
  by (simp_all add: strptime_simps)

lemma strptime_time:
  "strptime ''2023-01-05 10:30:00'' ''%Y-%m-%d'' = Inl ValueError"
  "strptime ''2023-01-05 10:30:00'' ''%m/%d/%Y'' = Inl ValueError"
  "strptime ''2023-01-05 10:30:00'' ''%Y-%m-%d %H:%M:%S''
   = Inr \<lparr>year = 2023, month = 1, day = 5, hour = 10, minute = 30, second = 0\<rparr>"
  by (simp_all add: strptime_simps)

lemma strptime_not_a_date:
  "strptime ''not-a-date'' ''%Y-%m-%d'' = Inl ValueError"
  "strptime ''not-a-date'' ''%m/%d/%Y'' = Inl ValueError"
  "strptime ''not-a-date'' ''%Y-%m-%d %H:%M:%S'' = Inl ValueError"
  by (simp_all add: strptime_simps)

lemma strptime_feb_30:
  "strptime ''2023-02-30'' ''%Y-%m-%d'' = Inl ValueError"
  "strptime ''2023-02-30'' ''%m/%d/%Y'' = Inl ValueError"
  "strptime ''2023-02-30'' ''%Y-%m-%d %H:%M:%S'' = Inl ValueError"
  by (simp_all add: strptime_simps)

lemma p_parse_unfold:
  "p_parse x =
     (case strptime (py_str x) ''%Y-%m-%d'' of
        Inr d \<Rightarrow> Datetime d
      | Inl e \<Rightarrow>
          (case strptime (py_str x) ''%m/%d/%Y'' of
             Inr d \<Rightarrow> Datetime d
           | Inl e \<Rightarrow>
               (case strptime (py_str x) ''%Y-%m-%d %H:%M:%S'' of
                  Inr d \<Rightarrow> Datetime d
                | Inl e \<Rightarrow> NaT)))"
  by (simp add: p_parse_def formats_def split: sum.splits)

text \<open>
  Claim C5. Under the labels \<^verbatim>\<open>createdAt\<close> and \<^verbatim>\<open>lastSeen\<close>
  the column never raises and keeps its length: each cell is the date and time of the
  first of the formats \<^verbatim>\<open>%Y-%m-%d\<close>, \<^verbatim>\<open>%m/%d/%Y\<close>,
  \<^verbatim>\<open>%Y-%m-%d %H:%M:%S\<close>, tried in that order, that parses its text, and the
  sentinel \<^verbatim>\<open>NaT\<close> when none does. The sentinel is no amount, no text, no
  flag and no date.
\<close>

theorem C5_dates_first_format_or_sentinel:
  assumes "label \<in> set [''createdAt'', ''lastSeen'']"
  shows "normalize_series label s
         = Inr (map (\<lambda>x.
             case strptime (py_str x) ''%Y-%m-%d'' of
               Inr d \<Rightarrow> Datetime d
             | Inl e \<Rightarrow>
                 (case strptime (py_str x) ''%m/%d/%Y'' of
                    Inr d \<Rightarrow> Datetime d
                  | Inl e \<Rightarrow>
                      (case strptime (py_str x) ''%Y-%m-%d %H:%M:%S'' of
                         Inr d \<Rightarrow> Datetime d
                       | Inl e \<Rightarrow> NaT))) s)
         \<and> NaT \<noteq> Float 0 \<and> NaT \<noteq> Text [] \<and> NaT \<noteq> NaN \<and> NaT \<noteq> Bool False
         \<and> NaT \<noteq> Datetime d"
proof -
  have "label \<notin> set [''mrr'', ''arr'']" and "label \<noteq> ''churnFlag''"
    using assms by auto
  then have "normalize_series label s = Inr (map p_parse s)"
    using assms by (simp add: normalize_series_def)
  then show ?thesis
    by (simp add: p_parse_unfold)
qed

text \<open>
  A column of four cells: a date in the first format, one in the second, a text that is
  no date, and a missing cell.
\<close>

theorem C5_dates_first_format_or_sentinel_witness:
  "''createdAt'' \<in> set [''createdAt'', ''lastSeen'']
   \<and> normalize_series ''createdAt''
        [Some ''2023-01-05'', Some ''01/05/2023'', Some ''not-a-date'', Some ''2023-01-05 10:30:00'']
      = Inr [Datetime \<lparr>year = 2023, month = 1, day = 5, hour = 0, minute = 0, second = 0\<rparr>,
             Datetime \<lparr>year = 2023, month = 1, day = 5, hour = 0, minute = 0, second = 0\<rparr>,
             NaT,
             Datetime \<lparr>year = 2023, month = 1, day = 5, hour = 10, minute = 30, second = 0\<rparr>]"
proof -
  have m: "''createdAt'' \<in> set [''createdAt'', ''lastSeen'']"
    by simp
  show ?thesis
    using C5_dates_first_format_or_sentinel [OF m, THEN conjunct1,
        of "[Some ''2023-01-05'', Some ''01/05/2023'', Some ''not-a-date'', Some ''2023-01-05 10:30:00'']"]
    by (simp add: py_str_def strptime_iso strptime_us strptime_not_a_date strptime_time)
qed

section \<open>The end-to-end scenario, currency and suffixed labels\<close>

lemma labels_jane:
  "fst (label_columns ext api_key jane_table ([], []))
   = [(''Full Name'', ''fullName''), (''E-mail'', ''email''), (''Signup Date'', ''createdAt''),
      (''MRR'', ''mrr'')]"
  by code_simp
lemma normalize_createdAt_jane:
  "normalize_series ''createdAt'' [Some ''2023-01-05'']
   = Inr [Datetime \<lparr>year = 2023, month = 1, day = 5, hour = 0, minute = 0, second = 0\<rparr>]"
  by (simp add: normalize_series_def p_parse_unfold py_str_def strptime_iso)

lemma normalize_fullName_jane: "normalize_series ''fullName'' [Some ''Jane Doe''] = Inr [Text ''Jane Doe'']"
  by (simp add: normalize_series_def keep_def)

lemma normalize_email_jane: "normalize_series ''email'' [Some ''jane@x.com''] = Inr [Text ''jane@x.com'']"
  by (simp add: normalize_series_def keep_def)

lemma clean_jane:
  "build_clean jane_table
     [(''Full Name'', ''fullName''), (''E-mail'', ''email''), (''Signup Date'', ''createdAt''),
      (''MRR'', ''mrr'')] []
   = Inr [(''fullName'', [Text ''Jane Doe'']), (''email'', [Text ''jane@x.com'']),
          (''createdAt'',
            [Datetime \<lparr>year = 2023, month = 1, day = 5, hour = 0, minute = 0, second = 0\<rparr>]),
          (''mrr'', [Float 120])]"
  by (simp add: jane_table_def normalize_mrr_120 normalize_createdAt_jane
      normalize_fullName_jane normalize_email_jane)

lemma main_jane:
  "table_of (main ext api_key jane_table)
   = Some [(''email'', [Text ''jane@x.com'']), (''fullName'', [Text ''Jane Doe'']),
           (''mrr'', [Float 120]),
           (''createdAt'',
              [Datetime \<lparr>year = 2023, month = 1, day = 5, hour = 0, minute = 0, second = 0\<rparr>])]"
proof -
  obtain report where "label_columns ext api_key jane_table ([], [])
     = ([(''Full Name'', ''fullName''), (''E-mail'', ''email''), (''Signup Date'', ''createdAt''),
         (''MRR'', ''mrr'')], report)"
    using labels_jane [of ext api_key] by (cases "label_columns ext api_key jane_table ([], [])") simp
  then show ?thesis
    by (simp add: main_def table_of_def clean_jane column_order_def STANDARD_ORDER_def
        del: build_clean.simps)
qed

text \<open>
  Claim C1, as the code has it. For the table with the columns \<^verbatim>\<open>Full Name\<close>,
  \<^verbatim>\<open>E-mail\<close>, \<^verbatim>\<open>Signup Date\<close>, \<^verbatim>\<open>MRR\<close> and the row
  Jane Doe, jane@x.com, 2023-01-05, $120.00 the run writes the columns in the order of
  \<^verbatim>\<open>STANDARD_ORDER\<close>: \<^verbatim>\<open>email\<close>, \<^verbatim>\<open>fullName\<close>,
  \<^verbatim>\<open>mrr\<close>, \<^verbatim>\<open>createdAt\<close>, with the row jane@x.com, Jane Doe,
  120, the date 2023-01-05; whether a credential or a service is configured makes no
  difference.
\<close>

theorem C1_end_to_end_scenario:
  "table_of (main ext api_key jane_table)
   = Some [(''email'', [Text ''jane@x.com'']), (''fullName'', [Text ''Jane Doe'']),
           (''mrr'', [Float 120]),
           (''createdAt'',
              [Datetime \<lparr>year = 2023, month = 1, day = 5, hour = 0, minute = 0, second = 0\<rparr>])]
   \<and> map snd (fst (label_columns ext api_key jane_table ([], [])))
       = [''fullName'', ''email'', ''createdAt'', ''mrr'']"
proof
  show "table_of (main ext api_key jane_table)
   = Some [(''email'', [Text ''jane@x.com'']), (''fullName'', [Text ''Jane Doe'']),
           (''mrr'', [Float 120]),
           (''createdAt'',
              [Datetime \<lparr>year = 2023, month = 1, day = 5, hour = 0, minute = 0, second = 0\<rparr>])]"
    by (rule main_jane)
  show "map snd (fst (label_columns ext api_key jane_table ([], [])))
       = [''fullName'', ''email'', ''createdAt'', ''mrr'']"
    by (simp add: labels_jane)
qed

theorem C1_end_to_end_scenario_witness:
  "table_of (main failing_service None jane_table)
   = Some [(''email'', [Text ''jane@x.com'']), (''fullName'', [Text ''Jane Doe'']),
           (''mrr'', [Float 120]),
           (''createdAt'',
              [Datetime \<lparr>year = 2023, month = 1, day = 5, hour = 0, minute = 0, second = 0\<rparr>])]"
  by (rule C1_end_to_end_scenario [of failing_service None, THEN conjunct1])

text \<open>
  The order the specification gives for this table, \<^verbatim>\<open>fullName\<close>,
  \<^verbatim>\<open>email\<close>, \<^verbatim>\<open>createdAt\<close>, \<^verbatim>\<open>mrr\<close>, is the order
  of the input columns and not the order written.
\<close>

theorem C1_input_order_counterexample:
  "table_of (main failing_service None jane_table) \<noteq> Some jane_spec_output"
  by (simp add: main_jane jane_spec_output_def)

text \<open>
  Claim C2, at the input where the code departs from it. A cell whose text keeps two
  points after stripping, or a point alone, is no number: the conversion raises
  \<^verbatim>\<open>ValueError\<close> and the run ends without a table. A text such as
  \<^verbatim>\<open>$1,2x0\<close> and a missing cell do become amounts.
\<close>

theorem C2_currency_raises_on_points:
  "normalize_series ''mrr'' [Some ''1.2.3''] = Inl ValueError
   \<and> normalize_series ''arr'' [Some ''n/a.''] = Inl ValueError
   \<and> main ext api_key [(''MRR'', [Some ''1.2.3''])] = Inl ValueError
   \<and> normalize_series ''mrr'' [Some ''$1,2x0'', None] = Inr [Float 120, Float 0]"
  using normalize_mrr_points normalize_arr_point main_points normalize_mrr_partial
  by (intro conjI)

text \<open>
  Claim C10. A label that carries a suffix is none of the labels \<^verbatim>\<open>normalize\<close>
  has a rule for, so its column is passed through cell by cell: this holds for every base
  label and every suffix, and so for the label the loop gives a column whose candidate
  is taken. A second column classified as \<^verbatim>\<open>mrr\<close> is written under
  \<^verbatim>\<open>mrr_2\<close> with its text unchanged, beside the first column's amount.
\<close>

theorem C10_suffixed_label_passes_through:
  "normalize_series (suffixed base k) s = Inr (map keep s)
   \<and> (base \<in> set used \<longrightarrow> normalize_series (uniq_loop base used base 2) s = Inr (map keep s))
   \<and> table_of (main ext api_key [(''MRR'', [Some ''$120.00'']), (''mrr usd'', [Some ''$120.00''])])
       = Some [(''mrr'', [Float 120]), (''mrr_2'', [Text ''$120.00''])]"
proof (intro conjI impI)
  show "normalize_series (suffixed base k) s = Inr (map keep s)"
    by (rule normalize_suffixed)
  show "normalize_series (uniq_loop base used base 2) s = Inr (map keep s)" if "base \<in> set used"
    using uniq_loop_least [OF that, of base 2] by (simp add: normalize_suffixed)
  show "table_of (main ext api_key [(''MRR'', [Some ''$120.00'']), (''mrr usd'', [Some ''$120.00''])])
       = Some [(''mrr'', [Float 120]), (''mrr_2'', [Text ''$120.00''])]"
    by (rule main_two_mrr)
qed

theorem C10_suffixed_label_passes_through_witness:
  "''mrr'' \<in> set [''mrr'']
   \<and> uniq_loop ''mrr'' [''mrr''] ''mrr'' 2 = ''mrr_2''
   \<and> normalize_series (uniq_loop ''mrr'' [''mrr''] ''mrr'' 2) [Some ''$120.00''] = Inr [Text ''$120.00'']
   \<and> normalize_series ''mrr'' [Some ''$120.00''] = Inr [Float 120]"
proof -
  have m: "''mrr'' \<in> set [''mrr'']"
    by simp
  have u: "uniq_loop ''mrr'' [''mrr''] ''mrr'' 2 = ''mrr_2''"
    by (simp add: uniq_loop.simps suffixed_def str_nat_2)
  have "normalize_series (uniq_loop ''mrr'' [''mrr''] ''mrr'' 2) [Some ''$120.00'']
        = Inr (map keep [Some ''$120.00''])"
    using C10_suffixed_label_passes_through [of "''mrr''" 2 "[Some ''$120.00'']" "[''mrr'']"
        failing_service None] m
    by blast
  then show ?thesis
    using m u normalize_mrr_120 by (simp add: keep_def)
qed

section \<open>Rows and columns of the table written\<close>

lemma astype_float_rows:
  "astype_float xs = Inr vs \<Longrightarrow>
   length vs = length xs \<and> (\<forall>i<length xs. astype_float [xs ! i] = Inr [vs ! i])"
proof (induction xs arbitrary: vs)
  case Nil
  then show ?case by simp
next
  case (Cons x xs)
  from Cons.prems obtain v vs' where v: "py_float x = Inr v"
    and vs': "astype_float xs = Inr vs'" and vs: "vs = Float v # vs'"
    by (auto split: sum.splits)
  have ih: "length vs' = length xs \<and> (\<forall>i<length xs. astype_float [xs ! i] = Inr [vs' ! i])"
    using Cons.IH [OF vs'] .
  show ?case
  proof (intro conjI allI impI)
    show "length vs = length (x # xs)"
      using ih vs by simp
    fix i
    assume "i < length (x # xs)"
    then show "astype_float [(x # xs) ! i] = Inr [vs ! i]"
      using ih v vs by (cases i) simp_all
  qed
qed

lemma normalize_cellwise:
  assumes "label \<notin> set [''mrr'', ''arr'']"
  shows "\<exists>f. \<forall>s. normalize_series label s = Inr (map f s)"
proof (cases "label = ''churnFlag''")
  case True
  then have "\<forall>s. normalize_series label s = Inr (map (\<lambda>x. flag (str_lower (py_str x))) s)"
    by (simp add: normalize_series_def)
  then show ?thesis by blast
next
  case churn: False
  show ?thesis
  proof (cases "label \<in> set [''createdAt'', ''lastSeen'']")
    case True
    then have "\<forall>s. normalize_series label s = Inr (map p_parse s)"
      using assms churn by (simp add: normalize_series_def)
    then show ?thesis by blast
  next
    case False
    then have "\<forall>s. normalize_series label s = Inr (map keep s)"
      using assms churn by (simp add: normalize_series_def)
    then show ?thesis by blast
  qed
qed

lemma normalize_rows:
  assumes "normalize_series label s = Inr vs"
  shows "length vs = length s \<and> (\<forall>i<length s. normalize_series label [s ! i] = Inr [vs ! i])"
proof (cases "label \<in> set [''mrr'', ''arr'']")
  case True
  then have cur: "normalize_series label t = astype_float (map (\<lambda>x. strip_amount (py_str x)) t)" for t
    by (simp add: normalize_series_def)
  from astype_float_rows [OF assms [unfolded cur]] show ?thesis
    unfolding cur by simp
next
  case False
  from normalize_cellwise [OF this] obtain f where f: "\<And>t. normalize_series label t = Inr (map f t)"
    by blast
  from assms have "vs = map f s"
    unfolding f by simp
  then show ?thesis
    unfolding f by simp
qed

lemma build_clean_appends:
  "distinct (map fst clean @ map snd items) \<Longrightarrow> build_clean df items clean = Inr out \<Longrightarrow>
   \<exists>new. out = clean @ new \<and> map fst new = map snd items
     \<and> (\<forall>p\<in>set new. \<exists>src s. (src, fst p) \<in> set items \<and> map_of df src = Some s
           \<and> normalize_series (fst p) s = Inr (snd p))"
proof (induction items arbitrary: clean)
  case Nil
  then show ?case by simp
next
  case (Cons item items)
  obtain src dst where item: "item = (src, dst)" by (cases item)
  from Cons.prems(2) item obtain s vs where s: "map_of df src = Some s"
    and vs: "normalize_series dst s = Inr vs"
    and rest: "build_clean df items (dict_set dst vs clean) = Inr out"
    by (auto split: option.splits sum.splits)
  have new_key: "dst \<notin> set (map fst clean)"
    using Cons.prems(1) item by auto
  then have set_eq: "dict_set dst vs clean = clean @ [(dst, vs)]"
    by (rule dict_set_new)
  have "distinct (map fst (clean @ [(dst, vs)]) @ map snd items)"
    using Cons.prems(1) item by auto
  from Cons.IH [OF this rest [unfolded set_eq]]
  obtain new where out: "out = (clean @ [(dst, vs)]) @ new"
    and keys: "map fst new = map snd items"
    and src: "\<forall>p\<in>set new. \<exists>src s. (src, fst p) \<in> set items \<and> map_of df src = Some s
           \<and> normalize_series (fst p) s = Inr (snd p)"
    by blast
  show ?case
  proof (intro exI conjI)
    show "out = clean @ ((dst, vs) # new)"
      using out by simp
    show "map fst ((dst, vs) # new) = map snd (item # items)"
      using keys item by simp
    show "\<forall>p\<in>set ((dst, vs) # new). \<exists>src s. (src, fst p) \<in> set (item # items)
            \<and> map_of df src = Some s \<and> normalize_series (fst p) s = Inr (snd p)"
      using src s vs item by fastforce
  qed
qed

lemma select_columns_picks:
  "select_columns clean order = Inr out \<Longrightarrow> map fst out = order \<and> set out \<subseteq> set clean"
proof (induction order arbitrary: out)
  case Nil
  then show ?case by simp
next
  case (Cons c cs)
  from Cons.prems obtain vs rest where vs: "map_of clean c = Some vs"
    and rest: "select_columns clean cs = Inr rest" and out: "out = (c, vs) # rest"
    by (auto split: option.splits sum.splits)
  have "(c, vs) \<in> set clean"
    using vs by (rule map_of_SomeD)
  then show ?case
    using Cons.IH [OF rest] out by simp
qed

lemma table_of_Some:
  "table_of r = Some out \<Longrightarrow> \<exists>report. r = Inr (out, report)"
  by (auto simp: table_of_def split: sum.splits)

lemma main_table:
  assumes "table_of (main ext api_key df) = Some out"
  shows "\<exists>clean. build_clean df (fst (label_columns ext api_key df ([], []))) [] = Inr clean
           \<and> select_columns clean (column_order (map fst clean)) = Inr out"
proof -
  obtain mapping report where lc: "label_columns ext api_key df ([], []) = (mapping, report)"
    by (cases "label_columns ext api_key df ([], [])")
  from table_of_Some [OF assms] obtain report' where "main ext api_key df = Inr (out, report')"
    by blast
  then show ?thesis
    using lc by (auto simp: main_def split: sum.splits)
qed

lemma main_columns:
  assumes "table_of (main ext api_key df) = Some out"
  shows "map fst out = column_order (map snd (fst (label_columns ext api_key df ([], []))))
         \<and> (\<forall>p\<in>set out. \<exists>src s. (src, fst p) \<in> set (fst (label_columns ext api_key df ([], [])))
               \<and> map_of df src = Some s \<and> normalize_series (fst p) s = Inr (snd p))"
proof -
  let ?mapping = "fst (label_columns ext api_key df ([], []))"
  from main_table [OF assms] obtain clean where bc: "build_clean df ?mapping [] = Inr clean"
    and sc: "select_columns clean (column_order (map fst clean)) = Inr out"
    by blast
  have "distinct (map fst ([] :: frame) @ map snd ?mapping)"
    using distinct_label_columns [of ext api_key df] by simp
  from build_clean_appends [OF this bc] have keys: "map fst clean = map snd ?mapping"
    and src: "\<forall>p\<in>set clean. \<exists>src s. (src, fst p) \<in> set ?mapping \<and> map_of df src = Some s
           \<and> normalize_series (fst p) s = Inr (snd p)"
    by auto
  from select_columns_picks [OF sc] keys src show ?thesis
    by auto
qed

section \<open>The order of the columns written\<close>

lemma set_column_order: "set (column_order cols) = set cols"
  by (auto simp: column_order_def)

lemma distinct_STANDARD_ORDER: "distinct STANDARD_ORDER"
  by (simp add: STANDARD_ORDER_def)

lemma distinct_column_order: "distinct cols \<Longrightarrow> distinct (column_order cols)"
  by (auto simp: column_order_def distinct_STANDARD_ORDER)

lemma keys_assign:
  "col \<notin> set (map fst (fst st)) \<Longrightarrow>
   map fst (fst (assign col label0 reason st)) = map fst (fst st) @ [col]"
  by (cases st) (simp add: assign_def Let_def dict_set_new)

lemma keys_assign_all:
  "distinct (map fst (fst st) @ map fst xs) \<Longrightarrow>
   map fst (fst (assign_all xs st)) = map fst (fst st) @ map fst xs"
proof (induction xs arbitrary: st)
  case Nil
  then show ?case by simp
next
  case (Cons x xs)
  obtain col label0 reason where x: "x = (col, label0, reason)" by (cases x)
  have new: "col \<notin> set (map fst (fst st))"
    using Cons.prems x by auto
  have "distinct (map fst (fst (assign col label0 reason st)) @ map fst xs)"
    using Cons.prems x keys_assign [OF new] by auto
  from Cons.IH [OF this] show ?case
    using x keys_assign [OF new] by simp
qed

lemma keys_label_columns:
  "distinct (map fst df) \<Longrightarrow> map fst (fst (label_columns ext api_key df ([], []))) = map fst df"
proof -
  assume d: "distinct (map fst df)"
  have m: "map fst (map (\<lambda>(col, s). (col, candidate ext api_key col s)) df) = map fst df"
    by (induction df) auto
  show ?thesis
    using keys_assign_all [of "([], [])" "map (\<lambda>(col, s). (col, candidate ext api_key col s)) df"] d
    unfolding label_columns_assign_all m by simp
qed

lemma labels_mrr_plan:
  "fst (label_columns ext api_key mrr_plan_table ([], [])) = [(''MRR'', ''mrr''), (''Plan'', ''plan'')]"
  by code_simp

lemma normalize_plan_pro: "normalize_series ''plan'' [Some ''pro''] = Inr [Text ''pro'']"
  by (simp add: normalize_series_def keep_def)

lemma clean_mrr_plan:
  "build_clean mrr_plan_table [(''MRR'', ''mrr''), (''Plan'', ''plan'')] []
   = Inr [(''mrr'', [Float 120]), (''plan'', [Text ''pro''])]"
  by (simp add: mrr_plan_table_def normalize_mrr_120 normalize_plan_pro)

lemma main_mrr_plan:
  "table_of (main ext api_key mrr_plan_table)
   = Some [(''plan'', [Text ''pro'']), (''mrr'', [Float 120])]"
proof -
  obtain report where "label_columns ext api_key mrr_plan_table ([], [])
     = ([(''MRR'', ''mrr''), (''Plan'', ''plan'')], report)"
    using labels_mrr_plan [of ext api_key]
    by (cases "label_columns ext api_key mrr_plan_table ([], [])") simp
  then show ?thesis
    by (simp add: main_def table_of_def clean_mrr_plan column_order_def STANDARD_ORDER_def
        del: build_clean.simps)
qed

text \<open>
  Claim C8. In the table a run writes, every column comes from a column of the input
  through the label the loop gave it: it has as many cells as that column, and its cell
  \<open>i\<close> is what \<^verbatim>\<open>normalize\<close> makes of the input's cell \<open>i\<close>
  alone. Every label assigned has exactly one column in the table.
\<close>

theorem C8_rows_preserved:
  assumes "table_of (main ext api_key df) = Some out"
  shows "(\<forall>p\<in>set out. \<exists>src s.
            (src, fst p) \<in> set (fst (label_columns ext api_key df ([], [])))
            \<and> map_of df src = Some s
            \<and> length (snd p) = length s
            \<and> (\<forall>i<length s. normalize_series (fst p) [s ! i] = Inr [snd p ! i]))
         \<and> set (map fst out) = set (map snd (fst (label_columns ext api_key df ([], []))))
         \<and> distinct (map fst out)"
proof (intro conjI ballI)
  fix p
  assume "p \<in> set out"
  with main_columns [OF assms] obtain src s
    where src: "(src, fst p) \<in> set (fst (label_columns ext api_key df ([], [])))"
      and s: "map_of df src = Some s"
      and vs: "normalize_series (fst p) s = Inr (snd p)"
    by blast
  from normalize_rows [OF vs] src s
  show "\<exists>src s. (src, fst p) \<in> set (fst (label_columns ext api_key df ([], [])))
            \<and> map_of df src = Some s
            \<and> length (snd p) = length s
            \<and> (\<forall>i<length s. normalize_series (fst p) [s ! i] = Inr [snd p ! i])"
    by blast
next
  show "set (map fst out) = set (map snd (fst (label_columns ext api_key df ([], []))))"
    using main_columns [OF assms] set_column_order by metis
next
  show "distinct (map fst out)"
    using main_columns [OF assms] distinct_column_order [OF distinct_label_columns [of ext api_key df]]
    by metis
qed

text \<open>
  The table of the scenario: its column \<^verbatim>\<open>mrr\<close> has the one cell of the
  input column \<^verbatim>\<open>MRR\<close>.
\<close>

theorem C8_rows_preserved_witness:
  "table_of (main failing_service None mrr_plan_table)
     = Some [(''plan'', [Text ''pro'']), (''mrr'', [Float 120])]
   \<and> (\<exists>src s. (src, ''mrr'') \<in> set (fst (label_columns failing_service None mrr_plan_table ([], [])))
         \<and> map_of mrr_plan_table src = Some s
         \<and> length [Float 120] = length s
         \<and> (\<forall>i<length s. normalize_series ''mrr'' [s ! i] = Inr [[Float 120] ! i]))"
proof
  show t: "table_of (main failing_service None mrr_plan_table)
     = Some [(''plan'', [Text ''pro'']), (''mrr'', [Float 120])]"
    by (rule main_mrr_plan)
  have "(''mrr'', [Float 120]) \<in> set [(''plan'', [Text ''pro'']), (''mrr'', [Float 120])]"
    by simp
  from C8_rows_preserved [OF t, THEN conjunct1, THEN bspec, OF this]
  show "\<exists>src s. (src, ''mrr'') \<in> set (fst (label_columns failing_service None mrr_plan_table ([], [])))
         \<and> map_of mrr_plan_table src = Some s
         \<and> length [Float 120] = length s
         \<and> (\<forall>i<length s. normalize_series ''mrr'' [s ! i] = Inr [[Float 120] ! i])"
    unfolding fst_conv snd_conv .
qed

text \<open>
  Claim C9, as the code has it. In the table a run writes, the columns whose label is in
  \<^verbatim>\<open>STANDARD_ORDER\<close> come first, in the order of that list, which has
  \<^verbatim>\<open>plan\<close> before \<^verbatim>\<open>mrr\<close> and \<^verbatim>\<open>arr\<close>; the
  columns with any other label follow in the order their labels were assigned, which is
  the order of the input columns when these have distinct names.
\<close>

theorem C9_column_order:
  assumes "table_of (main ext api_key df) = Some out"
  shows "map fst out
         = filter (\<lambda>c. c \<in> set (map snd (fst (label_columns ext api_key df ([], [])))))
             STANDARD_ORDER
           @ filter (\<lambda>c. c \<notin> set STANDARD_ORDER)
               (map snd (fst (label_columns ext api_key df ([], []))))
         \<and> STANDARD_ORDER
           = [''uuid'', ''email'', ''fullName'', ''firstName'', ''lastName'', ''company'',
              ''domain'', ''plan'', ''mrr'', ''arr'', ''nps'', ''churnFlag'', ''createdAt'',
              ''lastSeen'', ''phone'', ''country'', ''state'', ''city'', ''zip'', ''notes'',
              ''other'']
         \<and> (distinct (map fst df)
              \<longrightarrow> map fst (fst (label_columns ext api_key df ([], []))) = map fst df)"
proof (intro conjI impI)
  show "map fst out
         = filter (\<lambda>c. c \<in> set (map snd (fst (label_columns ext api_key df ([], [])))))
             STANDARD_ORDER
           @ filter (\<lambda>c. c \<notin> set STANDARD_ORDER)
               (map snd (fst (label_columns ext api_key df ([], []))))"
    using main_columns [OF assms, THEN conjunct1] unfolding column_order_def .
  show "STANDARD_ORDER
           = [''uuid'', ''email'', ''fullName'', ''firstName'', ''lastName'', ''company'',
              ''domain'', ''plan'', ''mrr'', ''arr'', ''nps'', ''churnFlag'', ''createdAt'',
              ''lastSeen'', ''phone'', ''country'', ''state'', ''city'', ''zip'', ''notes'',
              ''other'']"
    by (rule STANDARD_ORDER_def)
  show "map fst (fst (label_columns ext api_key df ([], []))) = map fst df"
    if "distinct (map fst df)"
    using that by (rule keys_label_columns)
qed

theorem C9_column_order_witness:
  "table_of (main failing_service None mrr_plan_table)
     = Some [(''plan'', [Text ''pro'']), (''mrr'', [Float 120])]
   \<and> map fst [(''plan'', [Text ''pro'']), (''mrr'', [Float 120])]
     = filter (\<lambda>c. c \<in> set (map snd [(''MRR'', ''mrr''), (''Plan'', ''plan'')])) STANDARD_ORDER
       @ filter (\<lambda>c. c \<notin> set STANDARD_ORDER) (map snd [(''MRR'', ''mrr''), (''Plan'', ''plan'')])
   \<and> distinct (map fst mrr_plan_table)"
proof (intro conjI)
  show t: "table_of (main failing_service None mrr_plan_table)
     = Some [(''plan'', [Text ''pro'']), (''mrr'', [Float 120])]"
    by (rule main_mrr_plan)
  show "map fst [(''plan'', [Text ''pro'']), (''mrr'', [Float 120])]
     = filter (\<lambda>c. c \<in> set (map snd [(''MRR'', ''mrr''), (''Plan'', ''plan'')])) STANDARD_ORDER
       @ filter (\<lambda>c. c \<notin> set STANDARD_ORDER) (map snd [(''MRR'', ''mrr''), (''Plan'', ''plan'')])"
    using C9_column_order [OF t, THEN conjunct1]
    unfolding labels_mrr_plan .
  show "distinct (map fst mrr_plan_table)"
    by (simp add: mrr_plan_table_def)
qed

text \<open>
  With the columns \<^verbatim>\<open>MRR\<close> and \<^verbatim>\<open>Plan\<close> the table written has
  \<^verbatim>\<open>plan\<close> before \<^verbatim>\<open>mrr\<close>; the order the specification lists
  would put \<^verbatim>\<open>mrr\<close> first.
\<close>

theorem C9_spec_order_counterexample:
  "table_of (main failing_service None mrr_plan_table)
     = Some [(''plan'', [Text ''pro'']), (''mrr'', [Float 120])]
   \<and> map snd (fst (label_columns failing_service None mrr_plan_table ([], []))) = [''mrr'', ''plan'']
   \<and> spec_column_order [''mrr'', ''plan''] = [''mrr'', ''plan'']
   \<and> map fst [(''plan'', [Text ''pro'']), (''mrr'', [Float 120])]
       \<noteq> spec_column_order [''mrr'', ''plan'']"
proof (intro conjI)
  show "table_of (main failing_service None mrr_plan_table)
     = Some [(''plan'', [Text ''pro'']), (''mrr'', [Float 120])]"
    by (rule main_mrr_plan)
  show "map snd (fst (label_columns failing_service None mrr_plan_table ([], []))) = [''mrr'', ''plan'']"
    by (simp add: labels_mrr_plan)
  show s: "spec_column_order [''mrr'', ''plan''] = [''mrr'', ''plan'']"
    by (simp add: spec_column_order_def SPEC_ORDER_def)
  show "map fst [(''plan'', [Text ''pro'']), (''mrr'', [Float 120])]
       \<noteq> spec_column_order [''mrr'', ''plan'']"
    unfolding s by simp
qed

section \<open>The only exception of a run\<close>

lemma keys_dict_set: "set (map fst (dict_set k v m)) = insert k (set (map fst m))"
proof (induction m)
  case Nil
  then show ?case by simp
next
  case (Cons p m)
  obtain k' v' where p: "p = (k', v')" by (cases p)
  show ?case
  proof (cases "k' = k")
    case True
    then show ?thesis using p by simp
  next
    case False
    then have "set (map fst (dict_set k v (p # m))) = insert k' (set (map fst (dict_set k v m)))"
      using p by simp
    then show ?thesis
      unfolding Cons.IH using p by auto
  qed
qed

lemma keys_assign_subset:
  "set (map fst (fst (assign col label0 reason st))) = insert col (set (map fst (fst st)))"
  by (cases st) (simp add: assign_def Let_def keys_dict_set del: set_map)

lemma keys_assign_all_subset:
  "set (map fst (fst (assign_all xs st))) = set (map fst (fst st)) \<union> set (map fst xs)"
proof (induction xs arbitrary: st)
  case Nil
  then show ?case by simp
next
  case (Cons x xs)
  obtain col label0 reason where x: "x = (col, label0, reason)" by (cases x)
  show ?case
    using Cons.IH [of "assign col label0 reason st"] keys_assign_subset [of col label0 reason st] x
    by auto
qed

lemma keys_label_columns_set:
  "set (map fst (fst (label_columns ext api_key df ([], [])))) = set (map fst df)"
proof -
  have "map fst (map (\<lambda>(col, s). (col, candidate ext api_key col s)) df) = map fst df"
    by (induction df) auto
  then show ?thesis
    using keys_assign_all_subset [of "map (\<lambda>(col, s). (col, candidate ext api_key col s)) df" "([], [])"]
    unfolding label_columns_assign_all by simp
qed

lemma py_float_error: "py_float t = Inl e \<Longrightarrow> e = ValueError"
  by (auto simp: py_float_def Let_def split: list.splits if_splits)

lemma astype_float_error: "astype_float xs = Inl e \<Longrightarrow> e = ValueError"
proof (induction xs)
  case Nil
  then show ?case by simp
next
  case (Cons x xs)
  then show ?case
    by (auto split: sum.splits dest: py_float_error)
qed

lemma normalize_error:
  assumes "normalize_series label s = Inl e"
  shows "e = ValueError \<and> label \<in> set [''mrr'', ''arr'']"
proof (cases "label \<in> set [''mrr'', ''arr'']")
  case True
  then have "normalize_series label s = astype_float (map (\<lambda>x. strip_amount (py_str x)) s)"
    by (simp add: normalize_series_def)
  then show ?thesis
    using assms True astype_float_error by metis
next
  case False
  from normalize_cellwise [OF this] assms show ?thesis
    by auto
qed

lemma build_clean_error:
  "build_clean df items clean = Inl e \<Longrightarrow> set (map fst items) \<subseteq> set (map fst df) \<Longrightarrow>
   e = ValueError"
proof (induction items arbitrary: clean)
  case Nil
  then show ?case by simp
next
  case (Cons item items)
  obtain src dst where item: "item = (src, dst)" by (cases item)
  have "src \<in> set (map fst df)"
    using Cons.prems(2) item by simp
  then obtain s where s: "map_of df src = Some s"
    using weak_map_of_SomeI [of src _ df] by (cases "map_of df src") (auto simp: map_of_eq_None_iff)
  show ?case
  proof (cases "normalize_series dst s")
    case (Inl e')
    then show ?thesis
      using Cons.prems(1) item s normalize_error [OF Inl] by simp
  next
    case (Inr vs)
    then have "build_clean df items (dict_set dst vs clean) = Inl e"
      using Cons.prems(1) item s by simp
    then show ?thesis
      using Cons.IH Cons.prems(2) by simp
  qed
qed

lemma select_columns_total:
  "set order \<subseteq> set (map fst clean) \<Longrightarrow> \<exists>out. select_columns clean order = Inr out"
proof (induction order)
  case Nil
  then show ?case by simp
next
  case (Cons c cs)
  have "c \<in> set (map fst clean)"
    using Cons.prems by simp
  then obtain vs where "map_of clean c = Some vs"
    by (cases "map_of clean c") (auto simp: map_of_eq_None_iff)
  moreover obtain rest where "select_columns clean cs = Inr rest"
    using Cons by auto
  ultimately show ?case by simp
qed

lemma main_error: "main ext api_key df = Inl e \<Longrightarrow> e = ValueError"
proof -
  assume m: "main ext api_key df = Inl e"
  obtain mapping report where lc: "label_columns ext api_key df ([], []) = (mapping, report)"
    by (cases "label_columns ext api_key df ([], [])")
  have keys: "set (map fst mapping) \<subseteq> set (map fst df)"
    using keys_label_columns_set [of ext api_key df] lc by simp
  show ?thesis
  proof (cases "build_clean df mapping []")
    case (Inl e')
    then have "e' = ValueError"
      using keys by (rule build_clean_error)
    then show ?thesis
      using m lc Inl by (simp add: main_def)
  next
    case (Inr clean)
    have "set (column_order (map fst clean)) \<subseteq> set (map fst clean)"
      using set_column_order by blast
    from select_columns_total [OF this] obtain out
      where "select_columns clean (column_order (map fst clean)) = Inr out"
      by blast
    then show ?thesis
      using m lc Inr by (simp add: main_def)
  qed
qed

end
